theory Spec2Isabelle
  imports Main "HOL-Library.Char_ord"
begin

section \<open>JavaScript values used by the handlers\<close>

text \<open>
  The handlers of \<^verbatim>\<open>src/index.js\<close> read text fields of the request. A field that is
  missing is \<open>None\<close> (JavaScript's \<^verbatim>\<open>undefined\<close>); a string is a list of characters, read as
  code units below 256. \<open>falsy v\<close> is JavaScript's \<^verbatim>\<open>!v\<close> on such a value: true for a
  missing field and for the empty string.
\<close>

definition falsy :: "string option \<Rightarrow> bool" where
  "falsy v = (case v of None \<Rightarrow> True | Some s \<Rightarrow> s = [])"

text \<open>\<^verbatim>\<open>a || b\<close> on a view name: the configured view unless it is missing or empty.\<close>

definition orElse :: "string option \<Rightarrow> string \<Rightarrow> string" where
  "orElse a b = (case a of None \<Rightarrow> b | Some s \<Rightarrow> if s = [] then b else s)"

definition inRange :: "char \<Rightarrow> char \<Rightarrow> char \<Rightarrow> bool" where
  "inRange lo hi c = (lo \<le> c \<and> c \<le> hi)"

definition upperClass :: "char \<Rightarrow> bool" where
  "upperClass c = inRange CHR ''A'' CHR ''Z'' c"

definition lowerClass :: "char \<Rightarrow> bool" where
  "lowerClass c = inRange CHR ''a'' CHR ''z'' c"

definition digitClass :: "char \<Rightarrow> bool" where
  "digitClass c = inRange CHR ''0'' CHR ''9'' c"

subsection \<open>encodeURIComponent\<close>

text \<open>
  \<^verbatim>\<open>encodeURIComponent\<close> keeps the unreserved characters
  \<^verbatim>\<open>A-Z a-z 0-9 - _ . ! ~ * ' ( )\<close> and replaces every other character by the
  percent-escapes of its UTF-8 bytes (one byte below 128, two bytes from 128 to 255).
\<close>

definition uriUnreserved :: "char \<Rightarrow> bool" where
  "uriUnreserved c =
     (upperClass c \<or> lowerClass c \<or> digitClass c \<or>
      c \<in> set [CHR ''-'', CHR ''_'', CHR ''.'', CHR ''!'', CHR ''~'', CHR ''*'', CHR 0x27,
                 CHR ''('', CHR '')''])"

definition hexDigitUpper :: "nat \<Rightarrow> char" where
  "hexDigitUpper n = ''0123456789ABCDEF'' ! (n mod 16)"

definition pctByte :: "nat \<Rightarrow> string" where
  "pctByte b = [CHR ''%'', hexDigitUpper (b div 16), hexDigitUpper b]"

definition encodeChar :: "char \<Rightarrow> string" where
  "encodeChar c =
     (if uriUnreserved c then [c]
      else let n = (of_char c :: nat)
           in if n < 128 then pctByte n
              else pctByte (192 + n div 64) @ pctByte (128 + n mod 64))"

definition encodeURIComponent :: "string \<Rightarrow> string" where
  "encodeURIComponent s = concat (map encodeChar s)"

subsection \<open>toLowerCase\<close>

text \<open>
  \<^verbatim>\<open>String.prototype.toLowerCase\<close> on code units below 256: the ASCII capitals and the
  Latin-1 capitals \<^verbatim>\<open>U+00C0..U+00DE\<close> (the multiplication sign \<^verbatim>\<open>U+00D7\<close> apart) move
  up by 32, every other character stays.
\<close>

definition toLowerChar :: "char \<Rightarrow> char" where
  "toLowerChar c =
     (let n = (of_char c :: nat)
      in if (65 \<le> n \<and> n \<le> 90) \<or> (192 \<le> n \<and> n \<le> 222 \<and> n \<noteq> 215)
         then char_of (n + 32) else c)"

definition toLowerCase :: "string \<Rightarrow> string" where
  "toLowerCase s = map toLowerChar s"

subsection \<open>Regular expressions\<close>

text \<open>
  The regular expressions of the source are matched by a backtracking matcher in
  continuation style: each piece takes the matcher of what follows it (\<open>k\<close>) and the
  input still to read. \<open>plusClass p\<close> is \<^verbatim>\<open>[p]+\<close>, \<open>repClass p lo hi\<close> is
  \<^verbatim>\<open>[p]{lo,hi}\<close>, \<open>lit a\<close> is the character \<open>a\<close>, \<open>atEnd\<close> is \<^verbatim>\<open>$\<close> (no multiline
  flag) and \<open>anyRest\<close> accepts wherever the pattern ends. \<open>searchFrom m\<close> is what
  \<^verbatim>\<open>test\<close> and \<^verbatim>\<open>match\<close> do with a pattern that has no \<^verbatim>\<open>^\<close>: the pattern is tried
  at every start position.
\<close>

fun plusClass :: "(char \<Rightarrow> bool) \<Rightarrow> (string \<Rightarrow> bool) \<Rightarrow> string \<Rightarrow> bool" where
  "plusClass p k [] = False"
| "plusClass p k (c # cs) = (p c \<and> (plusClass p k cs \<or> k cs))"

fun repClass :: "(char \<Rightarrow> bool) \<Rightarrow> nat \<Rightarrow> nat \<Rightarrow> (string \<Rightarrow> bool) \<Rightarrow> string \<Rightarrow> bool" where
  "repClass p lo 0 k s = (lo = 0 \<and> k s)"
| "repClass p lo (Suc hi) k [] = (lo = 0 \<and> k [])"
| "repClass p lo (Suc hi) k (c # cs) =
     ((p c \<and> repClass p (lo - 1) hi k cs) \<or> (lo = 0 \<and> k (c # cs)))"

fun lit :: "char \<Rightarrow> (string \<Rightarrow> bool) \<Rightarrow> string \<Rightarrow> bool" where
  "lit a k [] = False"
| "lit a k (c # cs) = (c = a \<and> k cs)"

definition atEnd :: "string \<Rightarrow> bool" where
  "atEnd s = (s = [])"

definition anyRest :: "string \<Rightarrow> bool" where
  "anyRest s = True"

fun searchFrom :: "(string \<Rightarrow> bool) \<Rightarrow> string \<Rightarrow> bool" where
  "searchFrom m [] = m []"
| "searchFrom m (c # cs) = (m (c # cs) \<or> searchFrom m cs)"

text \<open>
  \<^verbatim>\<open>/^[A-Za-z0-9._%+-]+@[A-Za-z0-9.-]+\.[A-Za-z]{2,6}$/\<close>, the pattern of both
  \<^verbatim>\<open>postSignup\<close> and \<^verbatim>\<open>postSignupResend\<close>.
\<close>

definition alnumClass :: "char \<Rightarrow> bool" where
  "alnumClass c = (upperClass c \<or> lowerClass c \<or> digitClass c)"

definition emailLocalClass :: "char \<Rightarrow> bool" where
  "emailLocalClass c =
     (alnumClass c \<or> c \<in> set [CHR ''.'', CHR ''_'', CHR ''%'', CHR ''+'', CHR ''-''])"

definition emailDomainClass :: "char \<Rightarrow> bool" where
  "emailDomainClass c = (alnumClass c \<or> c \<in> set [CHR ''.'', CHR ''-''])"

definition letterClass :: "char \<Rightarrow> bool" where
  "letterClass c = (upperClass c \<or> lowerClass c)"

definition EMAIL_REGEXP :: "string \<Rightarrow> bool" where
  "EMAIL_REGEXP =
     plusClass emailLocalClass (lit CHR ''@''
       (plusClass emailDomainClass (lit CHR ''.''
         (repClass letterClass 2 6 atEnd))))"

text \<open>
  \<^verbatim>\<open>/[a-z]/\<close>, which \<^verbatim>\<open>postSignup\<close> matches against \<^verbatim>\<open>name.charAt(0)\<close>.
\<close>

definition charAt0 :: "string \<Rightarrow> string" where
  "charAt0 s = take 1 s"

definition LOWER_REGEXP :: "string \<Rightarrow> bool" where
  "LOWER_REGEXP = searchFrom (repClass lowerClass 1 1 anyRest)"

text \<open>
  The token pattern of \<^verbatim>\<open>getSignupToken\<close>, built with the flag \<^verbatim>\<open>i\<close> and with no
  anchors:
  \<^verbatim>\<open>[0-9a-f]{22}|[0-9a-f]{8}-[0-9a-f]{4}-[0-9a-f]{4}-[0-9a-f]{4}-[0-9a-f]{12}\<close>.
  Under \<^verbatim>\<open>i\<close> the class \<^verbatim>\<open>[0-9a-f]\<close> also holds \<^verbatim>\<open>A-F\<close>.
\<close>

definition hexClass :: "char \<Rightarrow> bool" where
  "hexClass c =
     (digitClass c \<or> inRange CHR ''a'' CHR ''f'' c \<or> inRange CHR ''A'' CHR ''F'' c)"

definition tokenAlt1 :: "(string \<Rightarrow> bool) \<Rightarrow> string \<Rightarrow> bool" where
  "tokenAlt1 k = repClass hexClass 22 22 k"

definition tokenAlt2 :: "(string \<Rightarrow> bool) \<Rightarrow> string \<Rightarrow> bool" where
  "tokenAlt2 k =
     repClass hexClass 8 8 (lit CHR ''-''
       (repClass hexClass 4 4 (lit CHR ''-''
         (repClass hexClass 4 4 (lit CHR ''-''
           (repClass hexClass 4 4 (lit CHR ''-''
             (repClass hexClass 12 12 k))))))))"

definition TOKEN_REGEXP :: "string \<Rightarrow> bool" where
  "TOKEN_REGEXP = searchFrom (\<lambda>s. tokenAlt1 anyRest s \<or> tokenAlt2 anyRest s)"

text \<open>A run of exactly \<open>n\<close> hexadecimal digits, for stating what the pattern accepts.\<close>

definition hexRun :: "nat \<Rightarrow> string \<Rightarrow> bool" where
  "hexRun n s = (length s = n \<and> list_all hexClass s)"

section \<open>Accounts, configuration and requests\<close>

text \<open>
  The user object the adapter hands to the handlers. A field that \<^verbatim>\<open>delete\<close> removed,
  or that was never set, is \<open>None\<close>. Dates are milliseconds since the epoch.
\<close>

record account =
  uid :: nat
  name :: string
  email :: string
  password :: string
  accountType :: string
  emailVerified :: bool
  emailVerificationTimestamp :: "int option"
  signupToken :: "string option"
  signupTokenExpires :: "int option"

text \<open>
  The parts of \<^verbatim>\<open>config\<close> the handlers read: \<^verbatim>\<open>config.rest\<close>,
  \<^verbatim>\<open>config.signup.views\<close>, \<^verbatim>\<open>config.signup.handleResponse\<close> and
  \<^verbatim>\<open>config.signup.tokenExpiration\<close>, the last one as the number of milliseconds that
  \<^verbatim>\<open>ms\<close> returns for it.
\<close>

record config =
  rest :: bool
  view_signup :: "string option"
  view_signedUp :: "string option"
  view_resend :: "string option"
  view_linkExpired :: "string option"
  view_verified :: "string option"
  handleResponse :: bool
  tokenExpiration :: int

text \<open>
  The parts of \<^verbatim>\<open>req\<close> the handlers read: \<^verbatim>\<open>req.body\<close>, \<^verbatim>\<open>req.params.token\<close> and
  \<^verbatim>\<open>req.app.get('views')\<close>.
\<close>

record request =
  body_name :: "string option"
  body_email :: "string option"
  body_password :: "string option"
  body_type :: "string option"
  params_token :: string
  app_views :: "string option"

text \<open>
  What a handler does with \<^verbatim>\<open>res\<close> and \<^verbatim>\<open>next\<close>: \<open>Json st c\<close> is
  \<^verbatim>\<open>res.json(st, {error: {code: c}})\<close>, \<open>Send st\<close> is \<^verbatim>\<open>res.send(st)\<close>,
  \<open>Render st view locals\<close> is \<^verbatim>\<open>res.render(view, locals)\<close> under the status \<open>st\<close>
  (200 unless \<^verbatim>\<open>res.status\<close> was called; the local \<^verbatim>\<open>error\<close> is given by its code),
  \<open>Next\<close> is \<^verbatim>\<open>next()\<close>, \<open>NextErr e\<close> is \<^verbatim>\<open>next(err)\<close>, \<open>Threw e\<close> is an exception
  that nothing catches, and \<open>NoResponse\<close> is a handler that ends without any of these.
\<close>

datatype response =
    Json nat string
  | Send nat
  | Render nat string "(string \<times> string option) list"
  | Next
  | NextErr string
  | Threw string
  | NoResponse

text \<open>\<^verbatim>\<open>path.join(__dirname, 'views', view)\<close>, relative to the module's directory.\<close>

definition join :: "string \<Rightarrow> string" where
  "join view = ''views/'' @ view"

section \<open>The collaborators: adapter, mailer, events, clock and token generator\<close>

datatype field = FName | FEmail | FSignupToken

text \<open>
  Every call a handler makes to a collaborator is recorded, in order: the adapter's
  \<^verbatim>\<open>find\<close>, \<^verbatim>\<open>save\<close> and \<^verbatim>\<open>update\<close>, the mailer's \<^verbatim>\<open>taken\<close>, \<^verbatim>\<open>signup\<close> and
  \<^verbatim>\<open>resend\<close>, and the events the handler emits.
\<close>

datatype effect =
    Find field string
  | Save string string string string
  | Update account
  | MailTaken string string
  | MailSignup string string "string option"
  | MailResend string string string
  | Emit string account

text \<open>
  The world a handler runs in: the stored accounts, the record of calls, the outcomes
  planned for the coming calls to the adapter and the mailer (\<open>Some err\<close> makes the next
  call fail with \<open>err\<close>; once the plan is used up every call succeeds), the values
  \<^verbatim>\<open>uuid.v4()\<close> returns, call after call, and the readings of the clock, one per
  \<^verbatim>\<open>new Date()\<close> or \<^verbatim>\<open>moment()\<close>.
\<close>

record world =
  accounts :: "account list"
  trace :: "effect list"
  faults :: "string option list"
  uuids :: "nat \<Rightarrow> string"
  uuidCount :: nat
  clock :: "nat \<Rightarrow> int"
  clockReads :: nat

definition uuid_v4 :: "world \<Rightarrow> string \<times> world" where
  "uuid_v4 w = (uuids w (uuidCount w), w\<lparr>uuidCount := Suc (uuidCount w)\<rparr>)"

definition new_Date :: "world \<Rightarrow> int \<times> world" where
  "new_Date w = (clock w (clockReads w), w\<lparr>clockReads := Suc (clockReads w)\<rparr>)"

definition emit :: "string \<Rightarrow> account \<Rightarrow> world \<Rightarrow> world" where
  "emit ev user w = w\<lparr>trace := trace w @ [Emit ev user]\<rparr>"

text \<open>
  The adapter (\<^verbatim>\<open>adapter.find\<close>, \<^verbatim>\<open>adapter.save\<close>, \<^verbatim>\<open>adapter.update\<close>) and the mailer
  (\<^verbatim>\<open>lockit-sendmail\<close>) are packages outside this repository; the handlers only call
  them. They are modelled from the contracts of section 6 of the spec, as an in-memory
  repository and a mailer that records what it is asked to send.
\<close>

text \<open>
  Modelled from the spec: every call to the adapter or the mailer "may fail with an
  infrastructure error". \<open>collaborate\<close> records the call and takes its planned outcome.
\<close>

definition collaborate :: "effect \<Rightarrow> world \<Rightarrow> string option \<times> world" where
  "collaborate e w =
     (case faults w of
        [] \<Rightarrow> (None, w\<lparr>trace := trace w @ [e]\<rparr>)
      | f # fs \<Rightarrow> (f, w\<lparr>trace := trace w @ [e], faults := fs\<rparr>))"

text \<open>
  Modelled from the spec: \<open>findBy(field, value)\<close>, for the fields \<open>name\<close>, \<open>email\<close> and
  \<open>signupToken\<close>, returns an account whose field has that value, or nothing. \<open>lookup\<close>
  takes the first such account of the repository.
\<close>

definition fieldMatches :: "field \<Rightarrow> string \<Rightarrow> account \<Rightarrow> bool" where
  "fieldMatches f v a =
     (case f of
        FName \<Rightarrow> name a = v
      | FEmail \<Rightarrow> email a = v
      | FSignupToken \<Rightarrow> signupToken a = Some v)"

definition lookup :: "field \<Rightarrow> string \<Rightarrow> world \<Rightarrow> account option" where
  "lookup f v w = List.find (fieldMatches f v) (accounts w)"

text \<open>
  Modelled from the spec: \<open>update(account)\<close> persists the account it is given, under the
  identity the account carries, and returns it.
\<close>

definition replaceAccount :: "account \<Rightarrow> account list \<Rightarrow> account list" where
  "replaceAccount user as = map (\<lambda>a. if uid a = uid user then user else a) as"

text \<open>
  Modelled from the spec: \<^verbatim>\<open>adapter.find(field, value, callback)\<close>, which calls back with
  an error, or with the account found or nothing.
\<close>

definition adapter_find :: "field \<Rightarrow> string \<Rightarrow> world \<Rightarrow> (string + account option) \<times> world" where
  "adapter_find f v w =
     (case collaborate (Find f v) w of
        (Some err, w1) \<Rightarrow> (Inl err, w1)
      | (None, w1) \<Rightarrow> (Inr (lookup f v w1), w1))"

text \<open>
  Modelled from the spec: \<^verbatim>\<open>adapter.update(user, callback)\<close>, which calls back with an
  error, or with the account as persisted.
\<close>

definition adapter_update :: "account \<Rightarrow> world \<Rightarrow> (string + account) \<times> world" where
  "adapter_update user w =
     (case collaborate (Update user) w of
        (Some err, w1) \<Rightarrow> (Inl err, w1)
      | (None, w1) \<Rightarrow>
          (Inr user, w1\<lparr>accounts := replaceAccount user (accounts w1)\<rparr>))"

text \<open>
  Modelled from the spec: \<open>save(name, email, passwordCredential, accountType)\<close> "assigns
  identity, initial token/expiry": the new account is unverified, its identity is one no
  stored account has, its token is the next value of \<^verbatim>\<open>uuid.v4()\<close> and its expiry is the
  reading of the clock plus the configured lifetime.
\<close>

definition freshUid :: "account list \<Rightarrow> nat" where
  "freshUid as = Suc (fold max (map uid as) 0)"

definition adapter_save ::
  "config \<Rightarrow> string \<Rightarrow> string \<Rightarrow> string \<Rightarrow> string \<Rightarrow> world \<Rightarrow> (string + account) \<times> world" where
  "adapter_save cfg n e p t w =
     (case collaborate (Save n e p t) w of
        (Some err, w1) \<Rightarrow> (Inl err, w1)
      | (None, w1) \<Rightarrow>
          (case uuid_v4 w1 of (token, w2) \<Rightarrow>
           case new_Date w2 of (now, w3) \<Rightarrow>
             let user = \<lparr>uid = freshUid (accounts w3), name = n, email = e, password = p,
                          accountType = t, emailVerified = False,
                          emailVerificationTimestamp = None, signupToken = Some token,
                          signupTokenExpires = Some (now + tokenExpiration cfg)\<rparr>
             in (Inr user, w3\<lparr>accounts := accounts w3 @ [user]\<rparr>)))"

text \<open>
  Modelled from the spec: the three notifications \<open>notifyDuplicate\<close>, \<open>notifySignup\<close> and
  \<open>notifyResend\<close> (\<^verbatim>\<open>mail.taken\<close>, \<^verbatim>\<open>mail.signup\<close>, \<^verbatim>\<open>mail.resend\<close>), each of which
  calls back with an error or with nothing.
\<close>

definition mail_taken :: "string \<Rightarrow> string \<Rightarrow> world \<Rightarrow> string option \<times> world" where
  "mail_taken n e w = collaborate (MailTaken n e) w"

definition mail_signup :: "string \<Rightarrow> string \<Rightarrow> string option \<Rightarrow> world \<Rightarrow> string option \<times> world" where
  "mail_signup n e t w = collaborate (MailSignup n e t) w"

definition mail_resend :: "string \<Rightarrow> string \<Rightarrow> string \<Rightarrow> world \<Rightarrow> string option \<times> world" where
  "mail_resend n e t w = collaborate (MailResend n e t) w"

section \<open>The handlers\<close>

text \<open>
  The text of a body field where the handler uses it as a string; JavaScript turns a
  missing one into \<^verbatim>\<open>"undefined"\<close>.
\<close>

definition str :: "string option \<Rightarrow> string" where
  "str v = (case v of None \<Rightarrow> ''undefined'' | Some s \<Rightarrow> s)"

subsection \<open>POST /signup\<close>

text \<open>
  The checks at the head of \<^verbatim>\<open>postSignup\<close> (lines 96 to 108), which the spec calls
  \<open>validateSignup\<close>: the code of the first check that fails, or \<open>None\<close>.
\<close>

definition validateSignup ::
  "string option \<Rightarrow> string option \<Rightarrow> string option \<Rightarrow> string option \<Rightarrow> string option" where
  "validateSignup nm em pw ty =
     (if falsy nm \<or> falsy em \<or> falsy pw then Some ''signup.01''
      else if str nm \<noteq> encodeURIComponent (str nm) then Some ''signup.02''
      else if str nm \<noteq> toLowerCase (str nm) then Some ''signup.03''
      else if \<not> LOWER_REGEXP (charAt0 (str nm)) then Some ''signup.04''
      else if \<not> EMAIL_REGEXP (str em) then Some ''signup.05''
      else if falsy ty then Some ''signup.06''
      else None)"

definition postSignup :: "config \<Rightarrow> request \<Rightarrow> world \<Rightarrow> response \<times> world" where
  "postSignup cfg req w =
     (let nm = body_name req; em = body_email req; pw = body_password req;
          ty = body_type req;
          errorView = orElse (view_signup cfg) (join ''get-signup'')
      in case validateSignup nm em pw ty of
           Some code \<Rightarrow>
             if rest cfg then (Json 403 code, w)
             else (Render 403 errorView
                     [(''title'', Some ''Sign up''), (''error'', Some code),
                      (''basedir'', app_views req), (''name'', nm), (''email'', em)], w)
         | None \<Rightarrow>
             (case adapter_find FName (str nm) w of
                (Inl err, w1) \<Rightarrow> (NextErr err, w1)
              | (Inr (Some user), w1) \<Rightarrow>
                  if rest cfg then (Json 403 ''signup.07'', w1)
                  else (Render 403 errorView
                          [(''title'', Some ''Sign up''), (''error'', Some ''signup.07''),
                           (''basedir'', app_views req), (''name'', nm), (''email'', em)], w1)
              | (Inr None, w1) \<Rightarrow>
                  (case adapter_find FEmail (str em) w1 of
                     (Inl err, w2) \<Rightarrow> (NextErr err, w2)
                   | (Inr found, w2) \<Rightarrow>
                       let successView = orElse (view_signedUp cfg) (join ''post-signup'')
                       in case found of
                            Some user \<Rightarrow>
                              (case mail_taken (name user) (email user) w2 of
                                 (Some err, w3) \<Rightarrow> (NextErr err, w3)
                               | (None, w3) \<Rightarrow>
                                   if rest cfg then (Send 204, w3)
                                   else (Render 200 successView
                                           [(''title'', Some ''Sign up - Email sent''),
                                            (''basedir'', app_views req)], w3))
                          | None \<Rightarrow>
                              (case adapter_save cfg (str nm) (str em) (str pw) (str ty) w2 of
                                 (Inl err, w3) \<Rightarrow> (NextErr err, w3)
                               | (Inr user, w3) \<Rightarrow>
                                   (case mail_signup (name user) (email user)
                                           (signupToken user) w3 of
                                      (Some err, w4) \<Rightarrow> (NextErr err, w4)
                                    | (None, w4) \<Rightarrow>
                                        let w5 = emit ''signup::post'' user w4
                                        in if rest cfg then (Send 204, w5)
                                           else (Render 200 successView
                                                   [(''title'', Some ''Sign up - Email sent''),
                                                    (''basedir'', app_views req)], w5))))))"

subsection \<open>POST /signup/resend-verification\<close>

text \<open>
  After the lookup the source has two guards, each of which returns only under
  \<^verbatim>\<open>config.rest\<close>:
  \<^verbatim>\<open>if (!user) { if (config.rest) return res.json(403, ...) }\<close> and
  \<^verbatim>\<open>if (user.emailVerified) { if (config.rest) return res.json(403, ...) }\<close>.
  Without \<^verbatim>\<open>config.rest\<close> the first one falls through to the second, which reads
  \<^verbatim>\<open>user.emailVerified\<close>; on a missing user that read throws a \<^verbatim>\<open>TypeError\<close>.
\<close>

definition postSignupResend :: "config \<Rightarrow> request \<Rightarrow> world \<Rightarrow> response \<times> world" where
  "postSignupResend cfg req w =
     (let em = body_email req
      in if falsy em \<or> \<not> EMAIL_REGEXP (str em) then
           if rest cfg then (Json 403 ''signup.08'', w)
           else (Render 403 (orElse (view_resend cfg) (join ''resend-verification''))
                   [(''title'', Some ''Resend verification email''),
                    (''error'', Some ''signup.08''), (''basedir'', app_views req)], w)
         else
           (case adapter_find FEmail (str em) w of
              (Inl err, w1) \<Rightarrow> (NextErr err, w1)
            | (Inr found, w1) \<Rightarrow>
                let successView = orElse (view_signedUp cfg) (join ''post-signup'')
                in if found = None \<and> rest cfg then (Json 403 ''signup.10'', w1)
                   else
                     (case found of
                        None \<Rightarrow> (Threw ''TypeError'', w1)
                      | Some user \<Rightarrow>
                          if emailVerified user \<and> rest cfg then (Json 403 ''signup.11'', w1)
                          else
                            (case uuid_v4 w1 of (token, w2) \<Rightarrow>
                             case new_Date w2 of (now, w3) \<Rightarrow>
                               let user1 = user\<lparr>signupToken := Some token\<rparr>;
                                   user2 = user1\<lparr>signupTokenExpires :=
                                                    Some (now + tokenExpiration cfg)\<rparr>
                               in case adapter_update user2 w3 of
                                    (Inl err, w4) \<Rightarrow> (NextErr err, w4)
                                  | (Inr user3, w4) \<Rightarrow>
                                      (case mail_resend (name user3) (str em) token w4 of
                                         (Some err, w5) \<Rightarrow> (NextErr err, w5)
                                       | (None, w5) \<Rightarrow>
                                           if rest cfg then (Send 204, w5)
                                           else (Render 200 successView
                                                   [(''title'', Some ''Sign up - Email sent''),
                                                    (''basedir'', app_views req)], w5))))))"

subsection \<open>GET /signup/:token\<close>

text \<open>
  A \<^verbatim>\<open>Date\<close> holds a time of at most 8.64e15 milliseconds on either side of the epoch;
  \<^verbatim>\<open>new Date(t)\<close> for a time \<open>t\<close> outside that range is an invalid date. The current
  time, \<^verbatim>\<open>new Date()\<close>, is always a valid one.
\<close>

definition validTime :: "int \<Rightarrow> bool" where
  "validTime t = (- 8640000000000000 \<le> t \<and> t \<le> 8640000000000000)"

text \<open>
  \<^verbatim>\<open>new Date(user.signupTokenExpires) < new Date()\<close>: a missing expiry, or one outside
  the range of a \<^verbatim>\<open>Date\<close>, gives an invalid date, and a comparison with an invalid date
  is false.
\<close>

definition dateBefore :: "int option \<Rightarrow> int \<Rightarrow> bool" where
  "dateBefore d now = (case d of None \<Rightarrow> False | Some t \<Rightarrow> validTime t \<and> t < now)"

definition getSignupToken :: "config \<Rightarrow> request \<Rightarrow> world \<Rightarrow> response \<times> world" where
  "getSignupToken cfg req w =
     (let token = params_token req
      in if \<not> TOKEN_REGEXP token then (Next, w)
         else
           (case adapter_find FSignupToken token w of
              (Inl err, w1) \<Rightarrow> (NextErr err, w1)
            | (Inr None, w1) \<Rightarrow> (Next, w1)
            | (Inr (Some user), w1) \<Rightarrow>
                (case new_Date w1 of (now, w2) \<Rightarrow>
                   if dateBefore (signupTokenExpires user) now then
                     (let user1 = user\<lparr>signupToken := None\<rparr>
                      in case adapter_update user1 w2 of
                           (Inl err, w3) \<Rightarrow> (NextErr err, w3)
                         | (Inr user2, w3) \<Rightarrow>
                             if rest cfg then (Json 403 ''signup.09'', w3)
                             else (Render 200
                                     (orElse (view_linkExpired cfg) (join ''link-expired''))
                                     [(''title'',
                                       Some ''Sign up - Email verification link expired''),
                                      (''basedir'', app_views req)], w3))
                   else
                     (case new_Date w2 of (stamp, w3) \<Rightarrow>
                        let user1 = user\<lparr>emailVerificationTimestamp := Some stamp\<rparr>;
                            user2 = user1\<lparr>emailVerified := True\<rparr>;
                            user3 = user2\<lparr>signupToken := None\<rparr>;
                            user4 = user3\<lparr>signupTokenExpires := None\<rparr>
                        in case adapter_update user4 w3 of
                             (Inl err, w4) \<Rightarrow> (NextErr err, w4)
                           | (Inr user5, w4) \<Rightarrow>
                               let w5 = emit ''signup'' user5 w4
                               in if handleResponse cfg then
                                    if rest cfg then (Send 204, w5)
                                    else (Render 200
                                            (orElse (view_verified cfg)
                                               (join ''mail-verification-success''))
                                            [(''title'', Some ''Sign up success''),
                                             (''basedir'', app_views req)], w5)
                                  else (NoResponse, w5)))))"

section \<open>Outcomes, by the names the spec gives them\<close>

text \<open>
  The responses the handlers end with on their main paths, named so that the theorems can
  refer to them. Each is the expression the handler has at that place.
\<close>

definition signupErrorOutcome :: "config \<Rightarrow> request \<Rightarrow> string \<Rightarrow> response" where
  "signupErrorOutcome cfg req code =
     (if rest cfg then Json 403 code
      else Render 403 (orElse (view_signup cfg) (join ''get-signup''))
             [(''title'', Some ''Sign up''), (''error'', Some code),
              (''basedir'', app_views req), (''name'', body_name req),
              (''email'', body_email req)])"

definition emailSentOutcome :: "config \<Rightarrow> request \<Rightarrow> response" where
  "emailSentOutcome cfg req =
     (if rest cfg then Send 204
      else Render 200 (orElse (view_signedUp cfg) (join ''post-signup''))
             [(''title'', Some ''Sign up - Email sent''), (''basedir'', app_views req)])"

definition expiredOutcome :: "config \<Rightarrow> request \<Rightarrow> response" where
  "expiredOutcome cfg req =
     (if rest cfg then Json 403 ''signup.09''
      else Render 200 (orElse (view_linkExpired cfg) (join ''link-expired''))
             [(''title'', Some ''Sign up - Email verification link expired''),
              (''basedir'', app_views req)])"

definition verifiedPage :: "config \<Rightarrow> request \<Rightarrow> response" where
  "verifiedPage cfg req =
     (if rest cfg then Send 204
      else Render 200 (orElse (view_verified cfg) (join ''mail-verification-success''))
             [(''title'', Some ''Sign up success''), (''basedir'', app_views req)])"

text \<open>
  The account a successful verification hands to \<^verbatim>\<open>adapter.update\<close>: the timestamp and
  the flag set, the two token fields deleted.
\<close>

definition verifiedAccount :: "account \<Rightarrow> int \<Rightarrow> account" where
  "verifiedAccount user stamp =
     user\<lparr>emailVerificationTimestamp := Some stamp, emailVerified := True,
          signupToken := None, signupTokenExpires := None\<rparr>"


text \<open>
  The invariant of section 3 of the spec: the expiry is present if and only if the token
  is.
\<close>

definition tokenFieldsAgree :: "account \<Rightarrow> bool" where
  "tokenFieldsAgree a = ((signupTokenExpires a = None) = (signupToken a = None))"

section \<open>The checks of signup in the spec's words\<close>

text \<open>
  Section 4.1 of the spec lists the checks of \<open>validateSignup\<close> in order, each with its
  code: what must hold, paired with the code returned when it does not. The fourth check
  is worded as the spec has it, an ASCII letter of either case.
\<close>

definition firstIsAsciiLetter :: "string \<Rightarrow> bool" where
  "firstIsAsciiLetter s = (case s of [] \<Rightarrow> False | c # cs \<Rightarrow> upperClass c \<or> lowerClass c)"

definition specSignupChecks ::
  "string option \<Rightarrow> string option \<Rightarrow> string option \<Rightarrow> string option \<Rightarrow> (bool \<times> string) list" where
  "specSignupChecks nm em pw ty =
     [(\<not> (falsy nm \<or> falsy em \<or> falsy pw), ''signup.01''),
      (str nm = encodeURIComponent (str nm), ''signup.02''),
      (str nm = toLowerCase (str nm), ''signup.03''),
      (firstIsAsciiLetter (str nm), ''signup.04''),
      (EMAIL_REGEXP (str em), ''signup.05''),
      (\<not> falsy ty, ''signup.06'')]"

fun firstFailure :: "(bool \<times> string) list \<Rightarrow> string option" where
  "firstFailure [] = None"
| "firstFailure ((ok, code) # cs) = (if ok then firstFailure cs else Some code)"

section \<open>Example configurations, accounts and worlds\<close>

definition htmlConfig :: config where
  "htmlConfig =
     \<lparr>rest = False, view_signup = None, view_signedUp = None, view_resend = None,
      view_linkExpired = None, view_verified = None, handleResponse = True,
      tokenExpiration = 86400000\<rparr>"

definition restConfig :: config where
  "restConfig = htmlConfig\<lparr>rest := True\<rparr>"

definition quietWorld :: "account list \<Rightarrow> (nat \<Rightarrow> string) \<Rightarrow> (nat \<Rightarrow> int) \<Rightarrow> world" where
  "quietWorld as us ck =
     \<lparr>accounts = as, trace = [], faults = [], uuids = us, uuidCount = 0, clock = ck,
      clockReads = 0\<rparr>"

definition bobToken :: string where
  "bobToken = ''110ec58a-a0f2-4ac4-8393-c866d813b8d1''"

definition bob :: account where
  "bob =
     \<lparr>uid = 1, name = ''bob'', email = ''bob@example.com'', password = ''x'',
      accountType = ''user'', emailVerified = False, emailVerificationTimestamp = None,
      signupToken = Some bobToken, signupTokenExpires = Some 5000\<rparr>"

definition carol :: account where
  "carol =
     \<lparr>uid = 2, name = ''carol'', email = ''carol@example.com'', password = ''y'',
      accountType = ''user'', emailVerified = True, emailVerificationTimestamp = Some 100,
      signupToken = None, signupTokenExpires = None\<rparr>"

definition someUuids :: "nat \<Rightarrow> string" where
  "someUuids n =
     (if n = 0 then ''6ba7b810-9dad-41d1-80b4-00c04fd430c8''
      else ''6ba7b811-9dad-41d1-80b4-00c04fd430c8'')"


definition signupRequest :: "string \<Rightarrow> string \<Rightarrow> request" where
  "signupRequest n e =
     \<lparr>body_name = Some n, body_email = Some e, body_password = Some ''x'',
      body_type = Some ''user'', params_token = [], app_views = None\<rparr>"

definition emailRequest :: "string \<Rightarrow> request" where
  "emailRequest e =
     \<lparr>body_name = None, body_email = Some e, body_password = None, body_type = None,
      params_token = [], app_views = None\<rparr>"

definition tokenRequest :: "string \<Rightarrow> request" where
  "tokenRequest t =
     \<lparr>body_name = None, body_email = None, body_password = None, body_type = None,
      params_token = t, app_views = None\<rparr>"

section \<open>What the regular expressions accept\<close>

text \<open>
  The matcher's pieces, read as statements about the input: a piece accepts \<open>s\<close> when \<open>s\<close>
  splits into a part the piece describes and a rest that the continuation accepts.
\<close>

lemma lit_iff: "lit a k s = (\<exists>r. s = a # r \<and> k r)"
  by (cases s) auto

lemma plusClass_iff:
  "plusClass p k s = (\<exists>a r. s = a @ r \<and> a \<noteq> [] \<and> list_all p a \<and> k r)"
proof (induction s)
  case Nil
  then show ?case by simp
next
  case (Cons c cs)
  show ?case
  proof
    assume "plusClass p k (c # cs)"
    then have pc: "p c" and rest: "plusClass p k cs \<or> k cs" by simp_all
    from rest show "\<exists>a r. c # cs = a @ r \<and> a \<noteq> [] \<and> list_all p a \<and> k r"
    proof
      assume "plusClass p k cs"
      with Cons.IH obtain a r where "cs = a @ r" "list_all p a" "k r" by auto
      with pc have "c # cs = (c # a) @ r \<and> c # a \<noteq> [] \<and> list_all p (c # a) \<and> k r" by simp
      then show ?thesis by blast
    next
      assume "k cs"
      with pc have "c # cs = [c] @ cs \<and> [c] \<noteq> [] \<and> list_all p [c] \<and> k cs" by simp
      then show ?thesis by blast
    qed
  next
    assume "\<exists>a r. c # cs = a @ r \<and> a \<noteq> [] \<and> list_all p a \<and> k r"
    then obtain a r where eq: "c # cs = a @ r" and ne: "a \<noteq> []" and all: "list_all p a"
      and k: "k r" by blast
    from ne obtain a' where a: "a = c # a'" using eq by (cases a) auto
    with eq have cs: "cs = a' @ r" by simp
    from all a have pc: "p c" and all': "list_all p a'" by simp_all
    show "plusClass p k (c # cs)"
    proof (cases a')
      case Nil
      with cs k pc show ?thesis by simp
    next
      case (Cons x xs)
      with cs all' k have "\<exists>a r. cs = a @ r \<and> a \<noteq> [] \<and> list_all p a \<and> k r" by blast
      with Cons.IH pc show ?thesis by simp
    qed
  qed
qed

lemma repClass_iff:
  "repClass p lo hi k s =
     (\<exists>a r. s = a @ r \<and> lo \<le> length a \<and> length a \<le> hi \<and> list_all p a \<and> k r)"
proof (induction p lo hi k s rule: repClass.induct)
  case (1 p lo k s)
  then show ?case by auto
next
  case (2 p lo hi k)
  then show ?case by auto
next
  case (3 p lo hi k c cs)
  show ?case
  proof
    assume "repClass p lo (Suc hi) k (c # cs)"
    then consider "p c" "repClass p (lo - 1) hi k cs" | "lo = 0" "k (c # cs)" by auto
    then show "\<exists>a r. c # cs = a @ r \<and> lo \<le> length a \<and> length a \<le> Suc hi \<and> list_all p a \<and> k r"
    proof cases
      case 1
      with 3 obtain a r where "cs = a @ r" "lo - 1 \<le> length a" "length a \<le> hi"
        "list_all p a" "k r" by auto
      with 1 have "c # cs = (c # a) @ r \<and> lo \<le> length (c # a) \<and> length (c # a) \<le> Suc hi
          \<and> list_all p (c # a) \<and> k r" by auto
      then show ?thesis by blast
    next
      case 2
      then have "c # cs = [] @ (c # cs) \<and> lo \<le> length ([] :: string)
          \<and> length ([] :: string) \<le> Suc hi \<and> list_all p [] \<and> k (c # cs)" by simp
      then show ?thesis by blast
    qed
  next
    assume "\<exists>a r. c # cs = a @ r \<and> lo \<le> length a \<and> length a \<le> Suc hi \<and> list_all p a \<and> k r"
    then obtain a r where eq: "c # cs = a @ r" and lo: "lo \<le> length a"
      and hi: "length a \<le> Suc hi" and all: "list_all p a" and k: "k r" by blast
    show "repClass p lo (Suc hi) k (c # cs)"
    proof (cases a)
      case Nil
      with eq have "r = c # cs" by simp
      with Nil lo k show ?thesis by simp
    next
      case (Cons x xs)
      with eq have x: "x = c" and cs: "cs = xs @ r" by simp_all
      from Cons lo hi all x have "lo - 1 \<le> length xs" "length xs \<le> hi" "list_all p xs" "p c"
        by auto
      with cs k have "\<exists>a r. cs = a @ r \<and> lo - 1 \<le> length a \<and> length a \<le> hi
          \<and> list_all p a \<and> k r" by blast
      with 3 \<open>p c\<close> show ?thesis by simp
    qed
  qed
qed

lemma searchFrom_iff: "searchFrom m s = (\<exists>pre r. s = pre @ r \<and> m r)"
proof (induction s)
  case Nil
  then show ?case by simp
next
  case (Cons c cs)
  show ?case
  proof
    assume "searchFrom m (c # cs)"
    then consider "m (c # cs)" | "searchFrom m cs" by auto
    then show "\<exists>pre r. c # cs = pre @ r \<and> m r"
    proof cases
      case 1
      then have "c # cs = [] @ (c # cs) \<and> m (c # cs)" by simp
      then show ?thesis by blast
    next
      case 2
      with Cons.IH obtain pre r where "cs = pre @ r" "m r" by auto
      then have "c # cs = (c # pre) @ r \<and> m r" by simp
      then show ?thesis by blast
    qed
  next
    assume "\<exists>pre r. c # cs = pre @ r \<and> m r"
    then obtain pre r where eq: "c # cs = pre @ r" and m: "m r" by blast
    show "searchFrom m (c # cs)"
    proof (cases pre)
      case Nil
      with eq have "r = c # cs" by simp
      with m show ?thesis by simp
    next
      case (Cons x xs)
      with eq have "cs = xs @ r" by simp
      with m Cons.IH show ?thesis by auto
    qed
  qed
qed

lemma repClass_exact:
  "repClass p n n k s = (\<exists>a r. s = a @ r \<and> length a = n \<and> list_all p a \<and> k r)"
  unfolding repClass_iff by (metis le_antisym order_refl)

lemma hexRep_iff:
  "repClass hexClass n n k s = (\<exists>a r. s = a @ r \<and> hexRun n a \<and> k r)"
  unfolding repClass_exact hexRun_def by blast

text \<open>
  The email pattern accepts exactly the strings \<open>local@domain.tld\<close> with a non-empty
  local part of \<^verbatim>\<open>[A-Za-z0-9._%+-]\<close>, a non-empty domain of \<^verbatim>\<open>[A-Za-z0-9.-]\<close> and two to
  six letters at the end.
\<close>

lemma EMAIL_REGEXP_iff:
  "EMAIL_REGEXP s =
     (\<exists>l d t. s = l @ ''@'' @ d @ ''.'' @ t
        \<and> l \<noteq> [] \<and> list_all emailLocalClass l
        \<and> d \<noteq> [] \<and> list_all emailDomainClass d
        \<and> 2 \<le> length t \<and> length t \<le> 6 \<and> list_all letterClass t)"
proof
  assume "EMAIL_REGEXP s"
  then obtain l r1 where s: "s = l @ r1" and l: "l \<noteq> []" "list_all emailLocalClass l"
    and k1: "lit CHR ''@'' (plusClass emailDomainClass (lit CHR ''.''
               (repClass letterClass 2 6 atEnd))) r1"
    unfolding EMAIL_REGEXP_def plusClass_iff [of emailLocalClass] by blast
  from k1 obtain r2 where r1: "r1 = CHR ''@'' # r2"
    and k2: "plusClass emailDomainClass (lit CHR ''.'' (repClass letterClass 2 6 atEnd)) r2"
    unfolding lit_iff [of "CHR ''@''"] by blast
  from k2 obtain d r3 where r2: "r2 = d @ r3" and d: "d \<noteq> []" "list_all emailDomainClass d"
    and k3: "lit CHR ''.'' (repClass letterClass 2 6 atEnd) r3"
    unfolding plusClass_iff [of emailDomainClass] by blast
  from k3 obtain r4 where r3: "r3 = CHR ''.'' # r4" and k4: "repClass letterClass 2 6 atEnd r4"
    unfolding lit_iff [of "CHR ''.''"] by blast
  from k4 have t: "2 \<le> length r4" "length r4 \<le> 6" "list_all letterClass r4"
    unfolding repClass_iff atEnd_def by auto
  have "s = l @ ''@'' @ d @ ''.'' @ r4"
    by (simp add: s r1 r2 r3)
  with l d t show "\<exists>l d t. s = l @ ''@'' @ d @ ''.'' @ t
        \<and> l \<noteq> [] \<and> list_all emailLocalClass l
        \<and> d \<noteq> [] \<and> list_all emailDomainClass d
        \<and> 2 \<le> length t \<and> length t \<le> 6 \<and> list_all letterClass t"
    by blast
next
  assume "\<exists>l d t. s = l @ ''@'' @ d @ ''.'' @ t
        \<and> l \<noteq> [] \<and> list_all emailLocalClass l
        \<and> d \<noteq> [] \<and> list_all emailDomainClass d
        \<and> 2 \<le> length t \<and> length t \<le> 6 \<and> list_all letterClass t"
  then obtain l d t where s: "s = l @ ''@'' @ d @ ''.'' @ t"
    and l: "l \<noteq> []" "list_all emailLocalClass l"
    and d: "d \<noteq> []" "list_all emailDomainClass d"
    and t: "2 \<le> length t" "length t \<le> 6" "list_all letterClass t"
    by blast
  from t have k4: "repClass letterClass 2 6 atEnd t"
    unfolding repClass_iff atEnd_def by auto
  then have k3: "lit CHR ''.'' (repClass letterClass 2 6 atEnd) (''.'' @ t)"
    by simp
  with d have k2: "plusClass emailDomainClass (lit CHR ''.'' (repClass letterClass 2 6 atEnd))
      (d @ ''.'' @ t)"
    unfolding plusClass_iff [of emailDomainClass] by blast
  then have k1: "lit CHR ''@'' (plusClass emailDomainClass (lit CHR ''.''
      (repClass letterClass 2 6 atEnd))) (''@'' @ d @ ''.'' @ t)"
    by simp
  with l show "EMAIL_REGEXP s"
    unfolding EMAIL_REGEXP_def s plusClass_iff [of emailLocalClass] by blast
qed

text \<open>
  The token pattern accepts exactly the strings that contain, anywhere, a run of 22
  hexadecimal digits or a dashed 8-4-4-4-12 group of hexadecimal digits.
\<close>

lemma dash_hexRep_iff:
  "lit CHR ''-'' (repClass hexClass n n k) s = (\<exists>a r. s = ''-'' @ a @ r \<and> hexRun n a \<and> k r)"
proof -
  have "lit CHR ''-'' (repClass hexClass n n k) s
      = (\<exists>r0. s = CHR ''-'' # r0 \<and> (\<exists>a r. r0 = a @ r \<and> hexRun n a \<and> k r))"
    by (simp only: lit_iff hexRep_iff)
  also have "\<dots> = (\<exists>a r. s = ''-'' @ a @ r \<and> hexRun n a \<and> k r)"
    by (simp only: append_Cons append_Nil) blast
  finally show ?thesis .
qed

lemma tokenAlt1_iff:
  "tokenAlt1 anyRest s = (\<exists>mid post. s = mid @ post \<and> hexRun 22 mid)"
  by (simp only: tokenAlt1_def hexRep_iff anyRest_def simp_thms)

lemma tokenAlt2_unfold:
  "tokenAlt2 anyRest s =
     (\<exists>a r1. s = a @ r1 \<and> hexRun 8 a \<and>
       (\<exists>b r2. r1 = ''-'' @ b @ r2 \<and> hexRun 4 b \<and>
         (\<exists>c r3. r2 = ''-'' @ c @ r3 \<and> hexRun 4 c \<and>
           (\<exists>d r4. r3 = ''-'' @ d @ r4 \<and> hexRun 4 d \<and>
             (\<exists>e r5. r4 = ''-'' @ e @ r5 \<and> hexRun 12 e)))))"
  by (simp only: tokenAlt2_def hexRep_iff dash_hexRep_iff anyRest_def simp_thms)

lemma tokenAlt2_iff:
  "tokenAlt2 anyRest s =
     (\<exists>a b c d e post. s = (a @ ''-'' @ b @ ''-'' @ c @ ''-'' @ d @ ''-'' @ e) @ post
        \<and> hexRun 8 a \<and> hexRun 4 b \<and> hexRun 4 c \<and> hexRun 4 d \<and> hexRun 12 e)"
proof
  assume "tokenAlt2 anyRest s"
  then obtain a r1 b r2 c r3 d r4 e r5
    where s: "s = a @ r1" and a: "hexRun 8 a"
      and r1: "r1 = ''-'' @ b @ r2" and b: "hexRun 4 b"
      and r2: "r2 = ''-'' @ c @ r3" and c: "hexRun 4 c"
      and r3: "r3 = ''-'' @ d @ r4" and d: "hexRun 4 d"
      and r4: "r4 = ''-'' @ e @ r5" and e: "hexRun 12 e"
    unfolding tokenAlt2_unfold by (elim exE conjE)
  have "s = (a @ ''-'' @ b @ ''-'' @ c @ ''-'' @ d @ ''-'' @ e) @ r5"
    unfolding s r1 r2 r3 r4 by (simp only: append_assoc)
  with a b c d e show "\<exists>a b c d e post.
        s = (a @ ''-'' @ b @ ''-'' @ c @ ''-'' @ d @ ''-'' @ e) @ post
        \<and> hexRun 8 a \<and> hexRun 4 b \<and> hexRun 4 c \<and> hexRun 4 d \<and> hexRun 12 e"
    by (intro exI conjI)
next
  assume "\<exists>a b c d e post.
        s = (a @ ''-'' @ b @ ''-'' @ c @ ''-'' @ d @ ''-'' @ e) @ post
        \<and> hexRun 8 a \<and> hexRun 4 b \<and> hexRun 4 c \<and> hexRun 4 d \<and> hexRun 12 e"
  then obtain a b c d e post
    where s: "s = (a @ ''-'' @ b @ ''-'' @ c @ ''-'' @ d @ ''-'' @ e) @ post"
      and a: "hexRun 8 a" and b: "hexRun 4 b" and c: "hexRun 4 c" and d: "hexRun 4 d"
      and e: "hexRun 12 e"
    by (elim exE conjE)
  define r4 where "r4 = ''-'' @ e @ post"
  define r3 where "r3 = ''-'' @ d @ r4"
  define r2 where "r2 = ''-'' @ c @ r3"
  define r1 where "r1 = ''-'' @ b @ r2"
  have s': "s = a @ r1"
    unfolding s r1_def r2_def r3_def r4_def by (simp only: append_assoc)
  have k4: "\<exists>e r5. r4 = ''-'' @ e @ r5 \<and> hexRun 12 e"
    using r4_def e by - (rule exI [where x = e], rule exI [where x = post], intro conjI)
  have k3: "\<exists>d r4. r3 = ''-'' @ d @ r4 \<and> hexRun 4 d \<and>
             (\<exists>e r5. r4 = ''-'' @ e @ r5 \<and> hexRun 12 e)"
    using r3_def d k4 by - (rule exI [where x = d], rule exI [where x = r4], intro conjI)
  have k2: "\<exists>c r3. r2 = ''-'' @ c @ r3 \<and> hexRun 4 c \<and>
             (\<exists>d r4. r3 = ''-'' @ d @ r4 \<and> hexRun 4 d \<and>
               (\<exists>e r5. r4 = ''-'' @ e @ r5 \<and> hexRun 12 e))"
    using r2_def c k3 by - (rule exI [where x = c], rule exI [where x = r3], intro conjI)
  have k1: "\<exists>b r2. r1 = ''-'' @ b @ r2 \<and> hexRun 4 b \<and>
             (\<exists>c r3. r2 = ''-'' @ c @ r3 \<and> hexRun 4 c \<and>
               (\<exists>d r4. r3 = ''-'' @ d @ r4 \<and> hexRun 4 d \<and>
                 (\<exists>e r5. r4 = ''-'' @ e @ r5 \<and> hexRun 12 e)))"
    using r1_def b k2 by - (rule exI [where x = b], rule exI [where x = r2], intro conjI)
  show "tokenAlt2 anyRest s"
    unfolding tokenAlt2_unfold
    using s' a k1 by - (rule exI [where x = a], rule exI [where x = r1], intro conjI)
qed

lemma TOKEN_REGEXP_unfold:
  "TOKEN_REGEXP s =
      (\<exists>pre r. s = pre @ r \<and>
         ((\<exists>mid post. r = mid @ post \<and> hexRun 22 mid)
          \<or> (\<exists>a b c d e post. r = (a @ ''-'' @ b @ ''-'' @ c @ ''-'' @ d @ ''-'' @ e) @ post
                \<and> hexRun 8 a \<and> hexRun 4 b \<and> hexRun 4 c \<and> hexRun 4 d \<and> hexRun 12 e)))"
  by (simp only: TOKEN_REGEXP_def searchFrom_iff tokenAlt1_iff tokenAlt2_iff)

lemma TOKEN_REGEXP_iff:
  "TOKEN_REGEXP s =
     (\<exists>pre mid post. s = pre @ mid @ post
        \<and> (hexRun 22 mid
           \<or> (\<exists>a b c d e. mid = a @ ''-'' @ b @ ''-'' @ c @ ''-'' @ d @ ''-'' @ e
                \<and> hexRun 8 a \<and> hexRun 4 b \<and> hexRun 4 c \<and> hexRun 4 d \<and> hexRun 12 e)))"
proof -
  define dashedShape where "dashedShape =
     (\<lambda>mid. \<exists>a b c d e. mid = a @ ''-'' @ b @ ''-'' @ c @ ''-'' @ d @ ''-'' @ e
        \<and> hexRun 8 a \<and> hexRun 4 b \<and> hexRun 4 c \<and> hexRun 4 d \<and> hexRun 12 e)"
  have main: "TOKEN_REGEXP s =
     (\<exists>pre mid post. s = pre @ mid @ post \<and> (hexRun 22 mid \<or> dashedShape mid))"
  proof
    assume "TOKEN_REGEXP s"
    then obtain pre r where s: "s = pre @ r"
      and alt: "(\<exists>mid post. r = mid @ post \<and> hexRun 22 mid)
            \<or> (\<exists>a b c d e post. r = (a @ ''-'' @ b @ ''-'' @ c @ ''-'' @ d @ ''-'' @ e) @ post
                  \<and> hexRun 8 a \<and> hexRun 4 b \<and> hexRun 4 c \<and> hexRun 4 d \<and> hexRun 12 e)"
      unfolding TOKEN_REGEXP_unfold by (elim exE conjE)
    from alt show "\<exists>pre mid post. s = pre @ mid @ post \<and> (hexRun 22 mid \<or> dashedShape mid)"
    proof
      assume "\<exists>mid post. r = mid @ post \<and> hexRun 22 mid"
      then obtain mid post where "r = mid @ post" and "hexRun 22 mid" by (elim exE conjE)
      with s have "s = pre @ mid @ post \<and> (hexRun 22 mid \<or> dashedShape mid)" by simp
      then show ?thesis by (intro exI)
    next
      assume "\<exists>a b c d e post. r = (a @ ''-'' @ b @ ''-'' @ c @ ''-'' @ d @ ''-'' @ e) @ post
                  \<and> hexRun 8 a \<and> hexRun 4 b \<and> hexRun 4 c \<and> hexRun 4 d \<and> hexRun 12 e"
      then obtain a b c d e post
        where r: "r = (a @ ''-'' @ b @ ''-'' @ c @ ''-'' @ d @ ''-'' @ e) @ post"
          and runs: "hexRun 8 a" "hexRun 4 b" "hexRun 4 c" "hexRun 4 d" "hexRun 12 e"
        by (elim exE conjE)
      have "dashedShape (a @ ''-'' @ b @ ''-'' @ c @ ''-'' @ d @ ''-'' @ e)"
        unfolding dashedShape_def using refl runs by (intro exI conjI)
      with s r have "s = pre @ (a @ ''-'' @ b @ ''-'' @ c @ ''-'' @ d @ ''-'' @ e) @ post
          \<and> (hexRun 22 (a @ ''-'' @ b @ ''-'' @ c @ ''-'' @ d @ ''-'' @ e)
             \<or> dashedShape (a @ ''-'' @ b @ ''-'' @ c @ ''-'' @ d @ ''-'' @ e))"
        by (simp only: simp_thms)
      then show ?thesis by (intro exI)
    qed
  next
    assume "\<exists>pre mid post. s = pre @ mid @ post \<and> (hexRun 22 mid \<or> dashedShape mid)"
    then obtain pre mid post where s: "s = pre @ mid @ post"
      and alt: "hexRun 22 mid \<or> dashedShape mid"
      by (elim exE conjE)
    from alt have "(\<exists>m p. mid @ post = m @ p \<and> hexRun 22 m)
            \<or> (\<exists>a b c d e p. mid @ post = (a @ ''-'' @ b @ ''-'' @ c @ ''-'' @ d @ ''-'' @ e) @ p
                  \<and> hexRun 8 a \<and> hexRun 4 b \<and> hexRun 4 c \<and> hexRun 4 d \<and> hexRun 12 e)"
    proof
      assume "hexRun 22 mid"
      with refl have "\<exists>m p. mid @ post = m @ p \<and> hexRun 22 m" by (intro exI conjI)
      then show ?thesis by (rule disjI1)
    next
      assume "dashedShape mid"
      then obtain a b c d e where mid: "mid = a @ ''-'' @ b @ ''-'' @ c @ ''-'' @ d @ ''-'' @ e"
        and runs: "hexRun 8 a" "hexRun 4 b" "hexRun 4 c" "hexRun 4 d" "hexRun 12 e"
        unfolding dashedShape_def by (elim exE conjE)
      have "mid @ post = (a @ ''-'' @ b @ ''-'' @ c @ ''-'' @ d @ ''-'' @ e) @ post"
        by (simp only: mid)
      with runs have "\<exists>a b c d e p.
          mid @ post = (a @ ''-'' @ b @ ''-'' @ c @ ''-'' @ d @ ''-'' @ e) @ p
          \<and> hexRun 8 a \<and> hexRun 4 b \<and> hexRun 4 c \<and> hexRun 4 d \<and> hexRun 12 e"
        by (intro exI conjI)
      then show ?thesis by (rule disjI2)
    qed
    with s show "TOKEN_REGEXP s"
      unfolding TOKEN_REGEXP_unfold
      by - (rule exI [where x = pre], rule exI [where x = "mid @ post"], intro conjI)
  qed
  then show ?thesis unfolding dashedShape_def .
qed

text \<open>
  \<^verbatim>\<open>encodeURIComponent\<close> returns its argument unchanged exactly when every character is
  unreserved, that is, when nothing needs escaping.
\<close>

lemma encodeChar_kept: "uriUnreserved c \<Longrightarrow> encodeChar c = [c]"
  by (simp add: encodeChar_def)

lemma encodeChar_escaped: "\<not> uriUnreserved c \<Longrightarrow> 3 \<le> length (encodeChar c)"
  by (simp add: encodeChar_def pctByte_def Let_def)

lemma encodeChar_length: "1 \<le> length (encodeChar c)"
  by (cases "uriUnreserved c") (simp_all add: encodeChar_def pctByte_def Let_def)

lemma encodeURIComponent_length: "length s \<le> length (encodeURIComponent s)"
proof (induction s)
  case Nil
  then show ?case by (simp add: encodeURIComponent_def)
next
  case (Cons c cs)
  have "length (encodeURIComponent (c # cs))
      = length (encodeChar c) + length (encodeURIComponent cs)"
    by (simp add: encodeURIComponent_def)
  with Cons encodeChar_length [of c] show ?case by simp
qed

lemma encodeURIComponent_fixed:
  "(s = encodeURIComponent s) = list_all uriUnreserved s"
proof (induction s)
  case Nil
  then show ?case by (simp add: encodeURIComponent_def)
next
  case (Cons c cs)
  have step: "encodeURIComponent (c # cs) = encodeChar c @ encodeURIComponent cs"
    by (simp add: encodeURIComponent_def)
  show ?case
  proof (cases "uriUnreserved c")
    case True
    with Cons step show ?thesis by (simp add: encodeChar_kept)
  next
    case False
    have "length (c # cs) < length (encodeURIComponent (c # cs))"
      using encodeChar_escaped [OF False] encodeURIComponent_length [of cs]
      by (simp add: step)
    then have "c # cs \<noteq> encodeURIComponent (c # cs)" by auto
    with False show ?thesis by simp
  qed
qed

section \<open>Facts about the collaborators\<close>

lemma falsy_simps: "falsy None" "falsy (Some s) = (s = [])"
  by (simp_all add: falsy_def)

lemma collaborate_quiet:
  "faults w = [] \<Longrightarrow> collaborate e w = (None, w\<lparr>trace := trace w @ [e]\<rparr>)"
  by (simp add: collaborate_def)

lemma adapter_find_quiet:
  "faults w = [] \<Longrightarrow>
   adapter_find f v w = (Inr (lookup f v w), w\<lparr>trace := trace w @ [Find f v]\<rparr>)"
  by (simp add: adapter_find_def collaborate_quiet lookup_def)

lemma adapter_update_quiet:
  "faults w = [] \<Longrightarrow>
   adapter_update user w =
     (Inr user, w\<lparr>trace := trace w @ [Update user],
                  accounts := replaceAccount user (accounts w)\<rparr>)"
  by (simp add: adapter_update_def collaborate_quiet)




lemma find_only:
  assumes "filter P as = [u]"
  shows "List.find P as = Some u"
  using assms
proof (induction as)
  case Nil
  then show ?case by simp
next
  case (Cons a as)
  then show ?case by (auto split: if_splits)
qed

lemma find_only_then_none:
  assumes "filter P as = [u]" and "\<not> P user" and "uid user = uid u"
  shows "List.find P (replaceAccount user as) = None"
proof -
  have only: "a = u" if "a \<in> set as" and "P a" for a
  proof -
    from that have "a \<in> set (filter P as)" by simp
    with assms(1) show ?thesis by simp
  qed
  with assms(2,3) show ?thesis
    by (auto simp: find_None_iff replaceAccount_def)
qed

lemma find_only_member:
  assumes "filter P as = [u]"
  shows "u \<in> set as"
proof -
  have "u \<in> set (filter P as)" using assms by simp
  then show ?thesis by simp
qed

lemma find_uid_replaceAccount:
  assumes "u \<in> set as" and "uid user = uid u"
  shows "List.find (\<lambda>a. uid a = uid u) (replaceAccount user as) = Some user"
  using assms
proof (induction as)
  case Nil
  then show ?case by simp
next
  case (Cons a as)
  then show ?case by (auto simp: replaceAccount_def)
qed



section \<open>Facts about the handlers\<close>

text \<open>
  Verification of a well-shaped token that the lookup finds, when no call fails: the two
  branches of the expiry comparison, each with the world it leaves.
\<close>

lemma getSignupToken_found:
  assumes "faults w = []" and "TOKEN_REGEXP (params_token req)"
    and "lookup FSignupToken (params_token req) w = Some user"
  shows "getSignupToken cfg req w =
     (if dateBefore (signupTokenExpires user) (clock w (clockReads w)) then
        (expiredOutcome cfg req,
         w\<lparr>trace := trace w @ [Find FSignupToken (params_token req),
                                 Update (user\<lparr>signupToken := None\<rparr>)],
           accounts := replaceAccount (user\<lparr>signupToken := None\<rparr>) (accounts w),
           clockReads := Suc (clockReads w)\<rparr>)
      else
        (if handleResponse cfg then verifiedPage cfg req else NoResponse,
         w\<lparr>trace := trace w @
                  [Find FSignupToken (params_token req),
                   Update (verifiedAccount user (clock w (Suc (clockReads w)))),
                   Emit ''signup'' (verifiedAccount user (clock w (Suc (clockReads w))))],
           accounts :=
             replaceAccount (verifiedAccount user (clock w (Suc (clockReads w)))) (accounts w),
           clockReads := Suc (Suc (clockReads w))\<rparr>))"
  using assms
  by (simp add: getSignupToken_def adapter_find_quiet adapter_update_quiet new_Date_def
      emit_def expiredOutcome_def verifiedPage_def verifiedAccount_def Let_def)

lemma getSignupToken_unknown:
  assumes "faults w = []" and "lookup FSignupToken (params_token req) w = None"
  shows "getSignupToken cfg req w =
     (Next, if TOKEN_REGEXP (params_token req)
            then w\<lparr>trace := trace w @ [Find FSignupToken (params_token req)]\<rparr> else w)"
  using assms by (simp add: getSignupToken_def adapter_find_quiet)

lemma plusClass_nonempty: "plusClass p k s \<Longrightarrow> s \<noteq> []"
  by (cases s) simp_all

lemma EMAIL_REGEXP_nonempty: "EMAIL_REGEXP s \<Longrightarrow> s \<noteq> []"
  unfolding EMAIL_REGEXP_def by (rule plusClass_nonempty)


lemma lookup_ignores:
  "lookup f v (w\<lparr>trace := t\<rparr>) = lookup f v w"
  "lookup f v (w\<lparr>clockReads := c\<rparr>) = lookup f v w"
  "lookup f v (w\<lparr>uuidCount := n\<rparr>) = lookup f v w"
  by (simp_all add: lookup_def)

text \<open>
  Signup: a request that fails validation, a valid request whose email an account
  already has, and a valid request for a new name and email, when no call fails.
\<close>

lemma postSignup_invalid:
  assumes "validateSignup (body_name req) (body_email req) (body_password req) (body_type req)
             = Some code"
  shows "postSignup cfg req w = (signupErrorOutcome cfg req code, w)"
  using assms by (simp add: postSignup_def signupErrorOutcome_def Let_def)

lemma postSignup_duplicate_email:
  assumes "faults w = []"
    and "validateSignup (body_name req) (body_email req) (body_password req) (body_type req)
           = None"
    and "lookup FName (str (body_name req)) w = None"
    and "lookup FEmail (str (body_email req)) w = Some user"
  shows "postSignup cfg req w =
     (emailSentOutcome cfg req,
      w\<lparr>trace := trace w @ [Find FName (str (body_name req)),
                              Find FEmail (str (body_email req)),
                              MailTaken (name user) (email user)]\<rparr>)"
  using assms
  by (simp add: postSignup_def adapter_find_quiet lookup_ignores mail_taken_def
      collaborate_quiet emailSentOutcome_def Let_def)

lemma postSignup_fresh:
  assumes "faults w = []"
    and "validateSignup (body_name req) (body_email req) (body_password req) (body_type req)
           = None"
    and "lookup FName (str (body_name req)) w = None"
    and "lookup FEmail (str (body_email req)) w = None"
  shows "postSignup cfg req w =
     (let user = \<lparr>uid = freshUid (accounts w), name = str (body_name req),
                   email = str (body_email req), password = str (body_password req),
                   accountType = str (body_type req), emailVerified = False,
                   emailVerificationTimestamp = None,
                   signupToken = Some (uuids w (uuidCount w)),
                   signupTokenExpires = Some (clock w (clockReads w) + tokenExpiration cfg)\<rparr>
      in (emailSentOutcome cfg req,
          w\<lparr>uuidCount := Suc (uuidCount w), clockReads := Suc (clockReads w),
            trace := trace w @
              [Find FName (str (body_name req)), Find FEmail (str (body_email req)),
               Save (str (body_name req)) (str (body_email req)) (str (body_password req))
                 (str (body_type req)),
               MailSignup (str (body_name req)) (str (body_email req))
                 (Some (uuids w (uuidCount w))),
               Emit ''signup::post'' user],
            accounts := accounts w @ [user]\<rparr>))"
  using assms
  by (simp add: postSignup_def adapter_find_quiet lookup_ignores adapter_save_def
      mail_signup_def collaborate_quiet uuid_v4_def new_Date_def emit_def
      emailSentOutcome_def Let_def)

text \<open>
  The two guards of a resend. Under \<^verbatim>\<open>config.rest\<close> they reject a missing and a verified
  account after the lookup, with nothing written; without it a missing account makes
  the handler throw (a verified one falls through to \<open>postSignupResend_found\<close>).
\<close>

lemma postSignupResend_rest_guards:
  assumes "faults w = []" and "body_email req = Some em" and "EMAIL_REGEXP em"
    and "rest cfg"
  shows "lookup FEmail em w = None \<Longrightarrow>
           postSignupResend cfg req w
             = (Json 403 ''signup.10'', w\<lparr>trace := trace w @ [Find FEmail em]\<rparr>)"
    and "lookup FEmail em w = Some user \<Longrightarrow> emailVerified user \<Longrightarrow>
           postSignupResend cfg req w
             = (Json 403 ''signup.11'', w\<lparr>trace := trace w @ [Find FEmail em]\<rparr>)"
  using assms EMAIL_REGEXP_nonempty [of em]
  by (simp_all add: postSignupResend_def adapter_find_quiet falsy_def str_def Let_def)

lemma postSignupResend_html_missing:
  assumes "faults w = []" and "body_email req = Some em" and "EMAIL_REGEXP em"
    and "\<not> rest cfg" and "lookup FEmail em w = None"
  shows "postSignupResend cfg req w
           = (Threw ''TypeError'', w\<lparr>trace := trace w @ [Find FEmail em]\<rparr>)"
  using assms EMAIL_REGEXP_nonempty [of em]
  by (simp add: postSignupResend_def adapter_find_quiet falsy_def str_def Let_def)

text \<open>
  The expired branch, for every account whose expiry is a valid date before the reading of
  the clock: what is persisted is the account without its token, with its expiry as it
  was.
\<close>

lemma getSignupToken_expired:
  assumes "faults w = []" and "TOKEN_REGEXP (params_token req)"
    and "lookup FSignupToken (params_token req) w = Some user"
    and "signupTokenExpires user = Some e" and "validTime e"
    and "e < clock w (clockReads w)"
  shows "fst (getSignupToken cfg req w) = expiredOutcome cfg req"
    and "accounts (snd (getSignupToken cfg req w))
           = replaceAccount (user\<lparr>signupToken := None\<rparr>) (accounts w)"
    and "signupTokenExpires (user\<lparr>signupToken := None\<rparr>) = Some e"
    and "\<not> tokenFieldsAgree (user\<lparr>signupToken := None\<rparr>)"
  using assms(4-6)
  by (simp_all add: getSignupToken_found [OF assms(1-3)] dateBefore_def tokenFieldsAgree_def)

lemma handleResponse_leaves_world:
  "snd (getSignupToken (cfg\<lparr>handleResponse := b\<rparr>) req w) = snd (getSignupToken cfg req w)"
  by (simp add: getSignupToken_def Let_def split: prod.splits sum.splits option.splits)

lemma expired_ne_verified:
  "expiredOutcome cfg req \<noteq> (if handleResponse cfg then verifiedPage cfg req else NoResponse)"
  by (simp add: expiredOutcome_def verifiedPage_def)

section \<open>Facts about the checks of signup\<close>

text \<open>
  A name that \<^verbatim>\<open>toLowerCase\<close> leaves unchanged does not start with an ASCII capital, so
  on such a name the spec's "first character is an ASCII letter" and the source's
  \<^verbatim>\<open>/[a-z]/\<close> on \<^verbatim>\<open>name.charAt(0)\<close> agree.
\<close>

lemma LOWER_REGEXP_charAt0:
  "LOWER_REGEXP (charAt0 s) = (case s of [] \<Rightarrow> False | c # cs \<Rightarrow> lowerClass c)"
  by (cases s) (simp_all add: LOWER_REGEXP_def charAt0_def anyRest_def)

lemma upperClass_code: "upperClass c = (65 \<le> (of_char c :: nat) \<and> (of_char c :: nat) \<le> 90)"
  by (simp add: upperClass_def inRange_def less_eq_char_def)

lemma toLowerChar_fixed: "toLowerChar c = c \<Longrightarrow> \<not> upperClass c"
proof
  assume fixed: "toLowerChar c = c" and up: "upperClass c"
  let ?n = "of_char c :: nat"
  from up have range: "65 \<le> ?n" "?n \<le> 90" by (simp_all add: upperClass_code)
  with fixed have "char_of (?n + 32) = c" by (simp add: toLowerChar_def Let_def)
  then have "(of_char (char_of (?n + 32) :: char) :: nat) = ?n" by simp
  then have "(?n + 32) mod 256 = ?n" by (simp only: of_char_of)
  with range show False by simp
qed

lemma toLowerCase_fixed_first:
  "c # cs = toLowerCase (c # cs) \<Longrightarrow> \<not> upperClass c"
  by (rule toLowerChar_fixed) (simp add: toLowerCase_def)

lemma firstIsAsciiLetter_lower:
  assumes "s = toLowerCase s"
  shows "firstIsAsciiLetter s = LOWER_REGEXP (charAt0 s)"
proof (cases s)
  case Nil
  then show ?thesis by (simp add: firstIsAsciiLetter_def LOWER_REGEXP_charAt0)
next
  case (Cons c cs)
  with assms have "\<not> upperClass c" by (simp add: toLowerCase_fixed_first)
  with Cons show ?thesis by (simp add: firstIsAsciiLetter_def LOWER_REGEXP_charAt0)
qed

lemma validateSignup_refines:
  "validateSignup nm em pw ty = firstFailure (specSignupChecks nm em pw ty)"
  by (simp add: validateSignup_def specSignupChecks_def firstIsAsciiLetter_lower)

lemma validateSignup_Bob:
  assumes "\<not> falsy em" and "\<not> falsy pw"
  shows "validateSignup (Some ''Bob'') em pw ty = Some ''signup.03''"
proof -
  have e1: "encodeURIComponent ''Bob'' = ''Bob''" by code_simp
  have e2: "toLowerCase ''Bob'' \<noteq> ''Bob''" by code_simp
  from e2 have e3: "''Bob'' \<noteq> toLowerCase ''Bob''" by (rule not_sym)
  have s: "str (Some ''Bob'') = ''Bob''" by (simp add: str_def)
  show ?thesis
    unfolding validateSignup_def s e1
    using assms e3 by (simp add: falsy_simps)
qed

section \<open>Facts about the examples\<close>

lemma quietWorld_sel:
  "accounts (quietWorld as us ck) = as" "trace (quietWorld as us ck) = []"
  "faults (quietWorld as us ck) = []" "uuids (quietWorld as us ck) = us"
  "uuidCount (quietWorld as us ck) = 0" "clock (quietWorld as us ck) = ck"
  "clockReads (quietWorld as us ck) = 0"
  by (simp_all add: quietWorld_def)

lemma config_sel:
  "rest htmlConfig = False" "rest restConfig = True"
  "handleResponse htmlConfig = True" "handleResponse restConfig = True"
  "tokenExpiration htmlConfig = 86400000" "tokenExpiration restConfig = 86400000"
  by (simp_all add: htmlConfig_def restConfig_def)

section \<open>The claims\<close>

text \<open>
  C1. The claim: for every account whose \<open>signupTokenExpires\<close> is in the past,
  verification with its token clears both \<open>signupToken\<close> and \<open>signupTokenExpires\<close> before
  it persists the account and returns the expired outcome, so that the expiry is present
  if and only if the token is. The expired branch of \<^verbatim>\<open>getSignupToken\<close> deletes only
  \<^verbatim>\<open>user.signupToken\<close> (the verified branch deletes both fields). Here the account
  \<open>bob\<close>, whose token expired at 5000, presents it at 9000: the outcome is the expired one,
  and the account that was persisted has no token but still has its expiry, so the two
  fields, which agreed before, no longer agree.
\<close>

theorem expired_verification_keeps_expiry:
  "fst (getSignupToken restConfig (tokenRequest bobToken)
          (quietWorld [bob] someUuids (\<lambda>n. 9000))) = Json 403 ''signup.09''
   \<and> map signupToken
        (accounts (snd (getSignupToken restConfig (tokenRequest bobToken)
                          (quietWorld [bob] someUuids (\<lambda>n. 9000))))) = [None]
   \<and> map signupTokenExpires
        (accounts (snd (getSignupToken restConfig (tokenRequest bobToken)
                          (quietWorld [bob] someUuids (\<lambda>n. 9000))))) = [Some 5000]
   \<and> list_all tokenFieldsAgree (accounts (quietWorld [bob] someUuids (\<lambda>n. 9000)))
   \<and> \<not> list_all tokenFieldsAgree
        (accounts (snd (getSignupToken restConfig (tokenRequest bobToken)
                          (quietWorld [bob] someUuids (\<lambda>n. 9000)))))"
  by code_simp

text \<open>
  C2. The claim: a resend for an account with \<open>emailVerified = true\<close> always returns the
  "already verified" error and leaves the account unchanged. The guard on
  \<^verbatim>\<open>user.emailVerified\<close> returns only under \<^verbatim>\<open>config.rest\<close>. Here, without
  \<^verbatim>\<open>config.rest\<close>, a resend for the verified account \<open>carol\<close> renders the "email sent"
  page, stores a new token and expiry on her account through \<^verbatim>\<open>adapter.update\<close> and
  mails the token.
\<close>

theorem resend_verified_html_reissues:
  "fst (postSignupResend htmlConfig (emailRequest ''carol@example.com'')
          (quietWorld [carol] someUuids (\<lambda>n. 9000)))
     = Render 200 ''views/post-signup''
         [(''title'', Some ''Sign up - Email sent''), (''basedir'', None)]
   \<and> accounts (snd (postSignupResend htmlConfig (emailRequest ''carol@example.com'')
                      (quietWorld [carol] someUuids (\<lambda>n. 9000))))
     = [carol\<lparr>signupToken := Some ''6ba7b810-9dad-41d1-80b4-00c04fd430c8'',
               signupTokenExpires := Some 86409000\<rparr>]
   \<and> trace (snd (postSignupResend htmlConfig (emailRequest ''carol@example.com'')
                   (quietWorld [carol] someUuids (\<lambda>n. 9000))))
     = [Find FEmail ''carol@example.com'',
        Update (carol\<lparr>signupToken := Some ''6ba7b810-9dad-41d1-80b4-00c04fd430c8'',
                      signupTokenExpires := Some 86409000\<rparr>),
        MailResend ''carol'' ''carol@example.com'' ''6ba7b810-9dad-41d1-80b4-00c04fd430c8'']"
  by code_simp

text \<open>
  C3. The claim: when the current time equals \<open>signupTokenExpires\<close> exactly, the token
  is treated as expired. The source compares with
  \<^verbatim>\<open>new Date(user.signupTokenExpires) < new Date()\<close>, which is false at equality. Here
  \<open>bob\<close>'s token expires at 5000 and the clock reads 5000: the answer is the one of a
  successful verification, not the expired one, and the account is now verified.
\<close>

theorem expiry_boundary_counterexample:
  "signupTokenExpires bob = Some (clock (quietWorld [bob] someUuids (\<lambda>n. 5000)) 0)
   \<and> fst (getSignupToken restConfig (tokenRequest bobToken)
            (quietWorld [bob] someUuids (\<lambda>n. 5000))) = Send 204
   \<and> fst (getSignupToken restConfig (tokenRequest bobToken)
            (quietWorld [bob] someUuids (\<lambda>n. 5000))) \<noteq> Json 403 ''signup.09''
   \<and> map emailVerified
        (accounts (snd (getSignupToken restConfig (tokenRequest bobToken)
                          (quietWorld [bob] someUuids (\<lambda>n. 5000))))) = [True]"
  by code_simp

text \<open>
  C3, amended. For every account that the lookup finds by a well-shaped token, whose
  \<open>signupTokenExpires\<close> is a time a \<^verbatim>\<open>Date\<close> can hold (at most 8.64e15 milliseconds from
  the epoch), with no failing call: the expired outcome is returned exactly when
  \<open>signupTokenExpires\<close> is strictly before the reading of the clock; when the two are
  equal the verified branch is taken: the response is the one of a successful
  verification, the account is persisted as verified and the \<open>signup\<close> event is emitted.
\<close>

theorem expiry_comparison_is_strict:
  assumes "faults w = []" and "TOKEN_REGEXP (params_token req)"
    and "lookup FSignupToken (params_token req) w = Some user"
    and "signupTokenExpires user = Some e"
    and "- 8640000000000000 \<le> e" and "e \<le> 8640000000000000"
  shows "(fst (getSignupToken cfg req w) = expiredOutcome cfg req) = (e < clock w (clockReads w))
    \<and> (e = clock w (clockReads w) \<longrightarrow>
         fst (getSignupToken cfg req w)
           = (if handleResponse cfg then verifiedPage cfg req else NoResponse)
         \<and> accounts (snd (getSignupToken cfg req w))
           = replaceAccount (verifiedAccount user (clock w (Suc (clockReads w)))) (accounts w)
         \<and> trace (snd (getSignupToken cfg req w))
           = trace w @
               [Find FSignupToken (params_token req),
                Update (verifiedAccount user (clock w (Suc (clockReads w)))),
                Emit ''signup'' (verifiedAccount user (clock w (Suc (clockReads w))))])"
  using assms(4-6) expired_ne_verified [of cfg req]
  by (auto simp add: getSignupToken_found [OF assms(1-3)] dateBefore_def validTime_def)

theorem expiry_comparison_is_strict_witness:
  "fst (getSignupToken restConfig (tokenRequest bobToken) (quietWorld [bob] someUuids (\<lambda>n. 5000)))
     \<noteq> expiredOutcome restConfig (tokenRequest bobToken)
   \<and> fst (getSignupToken restConfig (tokenRequest bobToken) (quietWorld [bob] someUuids (\<lambda>n. 5000)))
     = verifiedPage restConfig (tokenRequest bobToken)
   \<and> accounts (snd (getSignupToken restConfig (tokenRequest bobToken)
                      (quietWorld [bob] someUuids (\<lambda>n. 5000))))
     = replaceAccount (verifiedAccount bob 5000) [bob]"
proof -
  have h1: "faults (quietWorld [bob] someUuids (\<lambda>n. 5000)) = []"
    by (simp add: quietWorld_sel)
  have h2: "TOKEN_REGEXP (params_token (tokenRequest bobToken))"
    by code_simp
  have h3: "lookup FSignupToken (params_token (tokenRequest bobToken))
              (quietWorld [bob] someUuids (\<lambda>n. 5000)) = Some bob"
    by code_simp
  have h4: "signupTokenExpires bob = Some 5000"
    by (simp add: bob_def)
  have h5: "- 8640000000000000 \<le> (5000 :: int)" and h6: "(5000 :: int) \<le> 8640000000000000"
    by simp_all
  show ?thesis
    using expiry_comparison_is_strict [OF h1 h2 h3 h4 h5 h6, of restConfig]
    by (simp add: quietWorld_sel config_sel expiredOutcome_def verifiedPage_def)
qed

text \<open>
  C4. The claim: verification looks the token up if and only if the entire string is a
  22-character hexadecimal token or a dashed 8-4-4-4-12 hexadecimal token. The pattern of
  \<^verbatim>\<open>getSignupToken\<close> has no anchors, so \<^verbatim>\<open>re.test\<close> accepts a string that only contains
  such a run. Here the token is 22 hexadecimal digits between an \<open>x\<close> and a \<open>y\<close>: the
  pattern accepts it and the adapter is asked for it.
\<close>

theorem malformed_token_is_looked_up:
  "TOKEN_REGEXP ''x0123456789abcdef012345y''
   \<and> fst (getSignupToken restConfig (tokenRequest ''x0123456789abcdef012345y'')
            (quietWorld [bob] someUuids (\<lambda>n. 9000))) = Next
   \<and> trace (snd (getSignupToken restConfig (tokenRequest ''x0123456789abcdef012345y'')
                   (quietWorld [bob] someUuids (\<lambda>n. 9000))))
     = [Find FSignupToken ''x0123456789abcdef012345y'']"
  by code_simp

text \<open>
  C5. For every signup input the checks of \<^verbatim>\<open>postSignup\<close> return the code of the first
  failing check in the order of the spec (name, email and password present; name equal
  to its percent-encoding; name lowercase; first character an ASCII letter; email
  pattern; account type present), the six codes are distinct, and a request that fails a
  check is answered with that code and leaves the world as it was: no call to the adapter
  is made. In particular the name \<open>Bob\<close>, with an email and a password present, fails
  with \<open>signup.03\<close> and no lookup is performed.
\<close>

theorem validateSignup_first_failing_check:
  "validateSignup nm em pw ty = firstFailure (specSignupChecks nm em pw ty)
   \<and> distinct (map snd (specSignupChecks nm em pw ty))
   \<and> (validateSignup (body_name req) (body_email req) (body_password req) (body_type req)
         = Some code
       \<longrightarrow> postSignup cfg req w = (signupErrorOutcome cfg req code, w))
   \<and> (body_name req = Some ''Bob'' \<and> \<not> falsy (body_email req) \<and> \<not> falsy (body_password req)
       \<longrightarrow> validateSignup (body_name req) (body_email req) (body_password req) (body_type req)
             = Some ''signup.03''
           \<and> postSignup cfg req w = (signupErrorOutcome cfg req ''signup.03'', w))"
proof -
  have order: "validateSignup nm em pw ty = firstFailure (specSignupChecks nm em pw ty)"
    by (rule validateSignup_refines)
  have codes: "distinct (map snd (specSignupChecks nm em pw ty))"
    by (simp add: specSignupChecks_def)
  have failure: "postSignup cfg req w = (signupErrorOutcome cfg req c, w)"
    if "validateSignup (body_name req) (body_email req) (body_password req) (body_type req)
          = Some c" for c
    using that by (rule postSignup_invalid)
  have bob: "validateSignup (body_name req) (body_email req) (body_password req) (body_type req)
      = Some ''signup.03''"
    if "body_name req = Some ''Bob''" and "\<not> falsy (body_email req)"
      and "\<not> falsy (body_password req)"
    using that by (simp add: validateSignup_Bob)
  show ?thesis
    using order codes failure bob by blast
qed

theorem validateSignup_first_failing_check_witness:
  "validateSignup (Some ''Bob'') (Some ''bob@example.com'') (Some ''x'') (Some ''user'')
     = Some ''signup.03''
   \<and> postSignup htmlConfig (signupRequest ''Bob'' ''bob@example.com'')
        (quietWorld [carol, bob] someUuids (\<lambda>n. 1000))
     = (signupErrorOutcome htmlConfig (signupRequest ''Bob'' ''bob@example.com'') ''signup.03'',
        quietWorld [carol, bob] someUuids (\<lambda>n. 1000))
   \<and> trace (snd (postSignup htmlConfig (signupRequest ''Bob'' ''bob@example.com'')
                   (quietWorld [carol, bob] someUuids (\<lambda>n. 1000)))) = []"
proof -
  let ?req = "signupRequest ''Bob'' ''bob@example.com''"
  have h1: "body_name ?req = Some ''Bob'' \<and> \<not> falsy (body_email ?req)
              \<and> \<not> falsy (body_password ?req)"
    by (simp add: signupRequest_def falsy_simps)
  have sel: "body_name ?req = Some ''Bob''" "body_email ?req = Some ''bob@example.com''"
    "body_password ?req = Some ''x''" "body_type ?req = Some ''user''"
    by (simp_all add: signupRequest_def)
  have both: "validateSignup (body_name ?req) (body_email ?req) (body_password ?req)
                (body_type ?req) = Some ''signup.03''
              \<and> postSignup htmlConfig ?req (quietWorld [carol, bob] someUuids (\<lambda>n. 1000))
                = (signupErrorOutcome htmlConfig ?req ''signup.03'',
                   quietWorld [carol, bob] someUuids (\<lambda>n. 1000))"
    using validateSignup_first_failing_check
      [of "Some ''Bob''" "Some ''bob@example.com''" "Some ''x''" "Some ''user''" ?req
          "''signup.03''" htmlConfig "quietWorld [carol, bob] someUuids (\<lambda>n. 1000)"] h1
    by blast
  then show ?thesis
    by (simp add: sel quietWorld_sel)
qed

text \<open>
  C6. For every signup that passes validation, whose name no account has and whose email
  an account already has, with no failing call: no account is created or changed, the
  calls made are the two lookups and \<^verbatim>\<open>mail.taken\<close> with the name and email of the
  existing account, and the response equals the response of the same request in any
  world where neither the name nor the email is taken, a run which does create the
  account.
\<close>

theorem duplicate_email_indistinguishable:
  assumes quiet: "faults w = []" and quiet': "faults w' = []"
    and valid: "validateSignup (body_name req) (body_email req) (body_password req)
                  (body_type req) = None"
    and name_free: "lookup FName (str (body_name req)) w = None"
    and email_taken: "lookup FEmail (str (body_email req)) w = Some user"
    and name_free': "lookup FName (str (body_name req)) w' = None"
    and email_free': "lookup FEmail (str (body_email req)) w' = None"
  shows "accounts (snd (postSignup cfg req w)) = accounts w
    \<and> trace (snd (postSignup cfg req w))
        = trace w @ [Find FName (str (body_name req)), Find FEmail (str (body_email req)),
                     MailTaken (name user) (email user)]
    \<and> email user = str (body_email req)
    \<and> map email (accounts (snd (postSignup cfg req w')))
        = map email (accounts w') @ [str (body_email req)]
    \<and> fst (postSignup cfg req w') = emailSentOutcome cfg req
    \<and> fst (postSignup cfg req w) = fst (postSignup cfg req w')"
proof -
  have "fieldMatches FEmail (str (body_email req)) user"
    using email_taken by (auto simp: lookup_def find_Some_iff)
  then have owner: "email user = str (body_email req)"
    by (simp add: fieldMatches_def)
  show ?thesis
    using owner
    by (simp add: postSignup_duplicate_email [OF quiet valid name_free email_taken]
        postSignup_fresh [OF quiet' valid name_free' email_free'] Let_def)
qed

theorem duplicate_email_indistinguishable_witness:
  "accounts (snd (postSignup htmlConfig (signupRequest ''bobby'' ''bob@example.com'')
                    (quietWorld [carol, bob] someUuids (\<lambda>n. 1000)))) = [carol, bob]
   \<and> trace (snd (postSignup htmlConfig (signupRequest ''bobby'' ''bob@example.com'')
                    (quietWorld [carol, bob] someUuids (\<lambda>n. 1000))))
      = [Find FName ''bobby'', Find FEmail ''bob@example.com'',
         MailTaken (name bob) (email bob)]
   \<and> fst (postSignup htmlConfig (signupRequest ''bobby'' ''bob@example.com'')
            (quietWorld [carol, bob] someUuids (\<lambda>n. 1000)))
      = fst (postSignup htmlConfig (signupRequest ''bobby'' ''bob@example.com'')
               (quietWorld [carol] someUuids (\<lambda>n. 1000)))"
proof -
  let ?req = "signupRequest ''bobby'' ''bob@example.com''"
  let ?w = "quietWorld [carol, bob] someUuids (\<lambda>n. 1000)"
  let ?w' = "quietWorld [carol] someUuids (\<lambda>n. 1000)"
  have h1: "faults ?w = []" and h2: "faults ?w' = []"
    by (simp_all add: quietWorld_sel)
  have h3: "validateSignup (body_name ?req) (body_email ?req) (body_password ?req)
              (body_type ?req) = None"
    by code_simp
  have h4: "lookup FName (str (body_name ?req)) ?w = None"
    by code_simp
  have h5: "lookup FEmail (str (body_email ?req)) ?w = Some bob"
    by code_simp
  have h6: "lookup FName (str (body_name ?req)) ?w' = None"
    by code_simp
  have h7: "lookup FEmail (str (body_email ?req)) ?w' = None"
    by code_simp
  have s: "str (body_name ?req) = ''bobby''" "str (body_email ?req) = ''bob@example.com''"
    by (simp_all add: signupRequest_def str_def)
  show ?thesis
    using duplicate_email_indistinguishable [OF h1 h2 h3 h4 h5 h6 h7, of htmlConfig]
    by (simp add: quietWorld_sel s)
qed

text \<open>
  C7. For every account whose \<open>signupTokenExpires\<close> is after the reading of the clock,
  which is the one account holding its (well-shaped) token, and with no failing call:
  verification with that token answers as a successful verification (the page or status
  when \<^verbatim>\<open>handleResponse\<close> is set), emits the \<open>signup\<close> event, and persists the account
  with \<open>emailVerified\<close> set, \<open>emailVerificationTimestamp\<close> set to the next reading of the
  clock and both token fields cleared. Afterwards the token matches no account, and a
  second verification with it ends in \<^verbatim>\<open>next()\<close>, leaving the accounts as they are.
\<close>

theorem verification_consumes_token:
  assumes quiet: "faults w = []" and shape: "TOKEN_REGEXP (params_token req)"
    and only: "filter (fieldMatches FSignupToken (params_token req)) (accounts w) = [user]"
    and expiry: "signupTokenExpires user = Some e" and future: "clock w (clockReads w) < e"
  shows "let w1 = snd (getSignupToken cfg req w);
             v = verifiedAccount user (clock w (Suc (clockReads w)))
         in fst (getSignupToken cfg req w)
              = (if handleResponse cfg then verifiedPage cfg req else NoResponse)
          \<and> trace w1 = trace w @ [Find FSignupToken (params_token req), Update v,
                                   Emit ''signup'' v]
          \<and> accounts w1 = replaceAccount v (accounts w)
          \<and> List.find (\<lambda>a. uid a = uid user) (accounts w1) = Some v
          \<and> emailVerified v
          \<and> emailVerificationTimestamp v = Some (clock w (Suc (clockReads w)))
          \<and> signupToken v = None \<and> signupTokenExpires v = None
          \<and> lookup FSignupToken (params_token req) w1 = None
          \<and> fst (getSignupToken cfg req w1) = Next
          \<and> accounts (snd (getSignupToken cfg req w1)) = accounts w1"
proof -
  define v where "v = verifiedAccount user (clock w (Suc (clockReads w)))"
  define w1 where "w1 = snd (getSignupToken cfg req w)"
  have found: "lookup FSignupToken (params_token req) w = Some user"
    unfolding lookup_def using only by (rule find_only)
  have fresh: "\<not> dateBefore (signupTokenExpires user) (clock w (clockReads w))"
    using expiry future by (simp add: dateBefore_def)
  have first: "getSignupToken cfg req w =
      (if handleResponse cfg then verifiedPage cfg req else NoResponse,
       w\<lparr>trace := trace w @ [Find FSignupToken (params_token req), Update v, Emit ''signup'' v],
         accounts := replaceAccount v (accounts w),
         clockReads := Suc (Suc (clockReads w))\<rparr>)"
    using fresh by (simp add: getSignupToken_found [OF quiet shape found] v_def)
  have v_fields: "emailVerified v" "emailVerificationTimestamp v = Some (clock w (Suc (clockReads w)))"
    "signupToken v = None" "signupTokenExpires v = None" "uid v = uid user"
    by (simp_all add: v_def verifiedAccount_def)
  have w1_accounts: "accounts w1 = replaceAccount v (accounts w)"
    and w1_trace: "trace w1 = trace w @ [Find FSignupToken (params_token req), Update v,
                                         Emit ''signup'' v]"
    and w1_quiet: "faults w1 = []"
    using quiet by (simp_all add: w1_def first)
  have stored: "List.find (\<lambda>a. uid a = uid user) (accounts w1) = Some v"
    unfolding w1_accounts
    using find_only_member [OF only] v_fields(5) by (rule find_uid_replaceAccount)
  have no_match: "\<not> fieldMatches FSignupToken (params_token req) v"
    by (simp add: fieldMatches_def v_fields)
  have gone: "lookup FSignupToken (params_token req) w1 = None"
    unfolding lookup_def w1_accounts
    using only no_match v_fields(5) by (rule find_only_then_none)
  have second: "getSignupToken cfg req w1 =
      (Next, w1\<lparr>trace := trace w1 @ [Find FSignupToken (params_token req)]\<rparr>)"
    using shape by (simp add: getSignupToken_unknown [OF w1_quiet gone])
  show ?thesis
    unfolding Let_def v_def [symmetric] w1_def [symmetric]
    using first w1_trace w1_accounts stored v_fields gone second by simp
qed

theorem verification_consumes_token_witness:
  "fst (getSignupToken htmlConfig (tokenRequest bobToken)
          (quietWorld [carol, bob] someUuids (\<lambda>n. 1000)))
     = verifiedPage htmlConfig (tokenRequest bobToken)
   \<and> accounts (snd (getSignupToken htmlConfig (tokenRequest bobToken)
                      (quietWorld [carol, bob] someUuids (\<lambda>n. 1000))))
     = replaceAccount (verifiedAccount bob 1000) [carol, bob]
   \<and> fst (getSignupToken htmlConfig (tokenRequest bobToken)
            (snd (getSignupToken htmlConfig (tokenRequest bobToken)
                    (quietWorld [carol, bob] someUuids (\<lambda>n. 1000))))) = Next"
proof -
  have h1: "faults (quietWorld [carol, bob] someUuids (\<lambda>n. 1000)) = []"
    by (simp add: quietWorld_sel)
  have h2: "TOKEN_REGEXP (params_token (tokenRequest bobToken))"
    by code_simp
  have h3: "filter (fieldMatches FSignupToken (params_token (tokenRequest bobToken)))
              (accounts (quietWorld [carol, bob] someUuids (\<lambda>n. 1000))) = [bob]"
    by code_simp
  have h4: "signupTokenExpires bob = Some 5000"
    by (simp add: bob_def)
  have h5: "clock (quietWorld [carol, bob] someUuids (\<lambda>n. 1000))
              (clockReads (quietWorld [carol, bob] someUuids (\<lambda>n. 1000))) < 5000"
    by (simp add: quietWorld_sel)
  show ?thesis
    using verification_consumes_token [OF h1 h2 h3 h4 h5, of htmlConfig]
    by (simp add: Let_def quietWorld_sel config_sel)
qed




text \<open>
  C9. The claim: when the lookup of a resend finds no account, the handler ends without
  reading a field of an account, with and without \<^verbatim>\<open>config.rest\<close>. The guard
  \<^verbatim>\<open>if (!user)\<close> returns only under \<^verbatim>\<open>config.rest\<close>. Here, without \<^verbatim>\<open>config.rest\<close>, a
  resend for an email that no account has goes on to read \<^verbatim>\<open>user.emailVerified\<close> on the
  missing user, which throws.
\<close>

theorem resend_unknown_html_throws:
  "lookup FEmail ''nobody@example.com'' (quietWorld [bob] someUuids (\<lambda>n. 9000)) = None
   \<and> fst (postSignupResend htmlConfig (emailRequest ''nobody@example.com'')
            (quietWorld [bob] someUuids (\<lambda>n. 9000))) = Threw ''TypeError''
   \<and> trace (snd (postSignupResend htmlConfig (emailRequest ''nobody@example.com'')
                   (quietWorld [bob] someUuids (\<lambda>n. 9000))))
     = [Find FEmail ''nobody@example.com'']"
  by code_simp

text \<open>
  C10. For every verification that finds the account and does not take the expired
  branch, with no failing call: the world the handler leaves (the persisted accounts, the
  calls made and the \<open>signup\<close> event among them) is the same whether
  \<^verbatim>\<open>config.signup.handleResponse\<close> is set or not; the account is persisted as verified and
  the event is emitted in both cases; only the response differs, the success page or
  status when the flag is set and none when it is not.
\<close>

theorem handleResponse_only_conditions_response:
  assumes quiet: "faults w = []" and shape: "TOKEN_REGEXP (params_token req)"
    and found: "lookup FSignupToken (params_token req) w = Some user"
    and fresh: "\<not> dateBefore (signupTokenExpires user) (clock w (clockReads w))"
  shows "let v = verifiedAccount user (clock w (Suc (clockReads w)));
             on = getSignupToken (cfg\<lparr>handleResponse := True\<rparr>) req w;
             off = getSignupToken (cfg\<lparr>handleResponse := False\<rparr>) req w
         in snd on = snd off
          \<and> accounts (snd on) = replaceAccount v (accounts w)
          \<and> trace (snd on) = trace w @ [Find FSignupToken (params_token req), Update v,
                                         Emit ''signup'' v]
          \<and> fst on = verifiedPage cfg req
          \<and> fst off = NoResponse"
  using fresh
  by (simp add: Let_def getSignupToken_found [OF quiet shape found] verifiedPage_def)

theorem handleResponse_only_conditions_response_witness:
  "snd (getSignupToken (restConfig\<lparr>handleResponse := True\<rparr>) (tokenRequest bobToken)
          (quietWorld [carol, bob] someUuids (\<lambda>n. 1000)))
     = snd (getSignupToken (restConfig\<lparr>handleResponse := False\<rparr>) (tokenRequest bobToken)
              (quietWorld [carol, bob] someUuids (\<lambda>n. 1000)))
   \<and> fst (getSignupToken (restConfig\<lparr>handleResponse := True\<rparr>) (tokenRequest bobToken)
            (quietWorld [carol, bob] someUuids (\<lambda>n. 1000))) = Send 204
   \<and> fst (getSignupToken (restConfig\<lparr>handleResponse := False\<rparr>) (tokenRequest bobToken)
            (quietWorld [carol, bob] someUuids (\<lambda>n. 1000))) = NoResponse"
proof -
  have h1: "faults (quietWorld [carol, bob] someUuids (\<lambda>n. 1000)) = []"
    by (simp add: quietWorld_sel)
  have h2: "TOKEN_REGEXP (params_token (tokenRequest bobToken))"
    by code_simp
  have h3: "lookup FSignupToken (params_token (tokenRequest bobToken))
              (quietWorld [carol, bob] someUuids (\<lambda>n. 1000)) = Some bob"
    by code_simp
  have h4: "\<not> dateBefore (signupTokenExpires bob)
              (clock (quietWorld [carol, bob] someUuids (\<lambda>n. 1000))
                 (clockReads (quietWorld [carol, bob] someUuids (\<lambda>n. 1000))))"
    by (simp add: quietWorld_sel bob_def dateBefore_def)
  show ?thesis
    using handleResponse_only_conditions_response [OF h1 h2 h3 h4, of restConfig]
    by (simp add: Let_def verifiedPage_def config_sel)
qed

end
